theory Spec2Isabelle
  imports Complex_Main "HOL-Library.Word"
begin

section \<open>Data model of the solver package\<close>

text \<open>
  The Go package computes on \<^verbatim>\<open>float64\<close> and \<^verbatim>\<open>[]float64\<close>. The embedding idealises
  \<^verbatim>\<open>float64\<close> as \<^typ>\<open>real\<close>: rounding, infinities and NaN are outside the model, and
  every statement below is a statement about the exact arithmetic of the program text.
  Slices are lists. The only slice that the code overwrites after handing it over is the
  scratch vector \<^verbatim>\<open>Xm\<close> of the fourth-order step, between two calls of the derivative
  function; a derivative function and a controller are taken to read their arguments
  during the call only and to return normally, so value semantics loses nothing.
\<close>

type_synonym vec = "real list"

text \<open>
  Go \<^verbatim>\<open>error\<close> values. \<open>FunctionUndefined\<close> is the error of \<^verbatim>\<open>Solve\<close> for a nil function,
  \<open>NoData\<close> and \<open>NamesMismatch\<close> are the two errors of the CSV export, \<open>Failure\<close>
  stands for any error made by user code (derivative functions, controllers) or by the
  operating system.
\<close>

datatype error =
    FunctionUndefined
  | NoData
  | NamesMismatch "string list"
  | Failure string

text \<open>A run-time panic of the Go code: an index expression out of range (index, length).\<close>

datatype panic = IndexOutOfRange nat nat

text \<open>
  \<^verbatim>\<open>type Function func(t float64, X []float64) (dXdt []float64, err error)\<close>:
  \<open>Inl\<close> is a non-nil error, \<open>Inr\<close> the derivative with a nil error.
\<close>

type_synonym Function = "real \<Rightarrow> vec \<Rightarrow> error + vec"

text \<open>
  What a step algorithm does: it panics (an index out of range in the slope returned by
  the function), returns \<^verbatim>\<open>(nil, err)\<close>, or returns \<^verbatim>\<open>(Xs, nil)\<close>.
\<close>

datatype 'a result = Panic panic | Err error | Ok 'a

type_synonym Iteration = "Function \<Rightarrow> real \<Rightarrow> vec \<Rightarrow> real \<Rightarrow> vec result"

text \<open>
  \<^verbatim>\<open>type Controller func(t float64, X []float64) (bool, error)\<close>: the pair of the stop
  flag and the error (\<open>None\<close> is nil).
\<close>

type_synonym Controller = "real \<Rightarrow> vec \<Rightarrow> bool \<times> error option"

record TimeData =
  time :: real
  state :: vec

type_synonym TimeSeries = "TimeData list"

section \<open>Controllers (controller.go)\<close>

definition StopAtTime :: "real \<Rightarrow> Controller" where
  "StopAtTime tmax = (\<lambda>t X.
     let delta = \<bar>t - tmax\<bar> in
     if delta < 1 / 10 ^ 8 \<or> t \<le> tmax then (False, None) else (True, None))"

text \<open>The \<^verbatim>\<open>for _, c := range controllers\<close> loop of the aggregate controller.\<close>

fun MultiController_range :: "Controller list \<Rightarrow> real \<Rightarrow> vec \<Rightarrow> bool \<times> error option" where
  "MultiController_range [] t X = (False, None)"
| "MultiController_range (c # controllers) t X =
     (case c t X of
        (ok, Some err) \<Rightarrow> (True, Some err)
      | (ok, None) \<Rightarrow> if ok then (True, None) else MultiController_range controllers t X)"

definition MultiController :: "Controller list \<Rightarrow> Controller" where
  "MultiController controllers = (\<lambda>t X. MultiController_range controllers t X)"

section \<open>Recorders (recorder.go)\<close>

text \<open>
  The implementations of the \<^verbatim>\<open>Recorder\<close> interface that keep or drop the samples.
  \<^verbatim>\<open>RecorderLogger\<close> only prints to the console and is left out.
\<close>

datatype Recorder = RecorderNone | RecorderTimeSeries (Series: TimeSeries)

fun Record :: "Recorder \<Rightarrow> real \<Rightarrow> vec \<Rightarrow> Recorder" where
  "Record RecorderNone t X = RecorderNone"
| "Record (RecorderTimeSeries series) t X =
     RecorderTimeSeries (series @ [\<lparr>time = t, state = X\<rparr>])"

section \<open>Step algorithms: Euler, RK2, RK4\<close>

text \<open>
  Each \<^verbatim>\<open>for i := 0; i < len(Xn); i++\<close> loop fills a fresh slice of length \<^verbatim>\<open>len(Xn)\<close>.
  It reads \<^verbatim>\<open>slope[i]\<close>, which panics at index \<^verbatim>\<open>len(slope)\<close> when the function returned
  a slope shorter than \<^verbatim>\<open>Xn\<close>; a longer slope is read up to \<^verbatim>\<open>len(Xn)\<close> only.
\<close>

definition fill :: "nat \<Rightarrow> (nat \<Rightarrow> real) \<Rightarrow> vec" where
  "fill n g = map g [0..<n]"

definition eulerIteration :: Iteration where
  "eulerIteration f tn Xn h =
     (case f tn Xn of
        Inl err \<Rightarrow> Err err
      | Inr slope \<Rightarrow>
          if length slope < length Xn
          then Panic (IndexOutOfRange (length slope) (length slope))
          else Ok (fill (length Xn) (\<lambda>i. Xn ! i + h * slope ! i)))"

definition rk2Iteration :: Iteration where
  "rk2Iteration f tn Xn h =
     (case f tn Xn of
        Inl err \<Rightarrow> Err err
      | Inr slope \<Rightarrow>
          if length slope < length Xn
          then Panic (IndexOutOfRange (length slope) (length slope))
          else
            let Xm = fill (length Xn) (\<lambda>i. Xn ! i + h * slope ! i / 2) in
            (case f (tn + h / 2) Xm of
               Inl err \<Rightarrow> Err err
             | Inr slope \<Rightarrow>
                 if length slope < length Xn
                 then Panic (IndexOutOfRange (length slope) (length slope))
                 else Ok (fill (length Xn) (\<lambda>i. Xn ! i + h * slope ! i))))"

definition rk4Iteration :: Iteration where
  "rk4Iteration f tn Xn h =
     (case f tn Xn of
        Inl err \<Rightarrow> Err err
      | Inr slope \<Rightarrow>
          if length slope < length Xn
          then Panic (IndexOutOfRange (length slope) (length slope))
          else
            let k1 = fill (length Xn) (\<lambda>i. h * slope ! i);
                Xm = fill (length Xn) (\<lambda>i. Xn ! i + k1 ! i / 2) in
            (case f (tn + h / 2) Xm of
               Inl err \<Rightarrow> Err err
             | Inr slope \<Rightarrow>
                 if length slope < length Xn
                 then Panic (IndexOutOfRange (length slope) (length slope))
                 else
                   let k2 = fill (length Xn) (\<lambda>i. h * slope ! i);
                       Xm = fill (length Xn) (\<lambda>i. Xn ! i + k2 ! i / 2) in
                   (case f (tn + h / 2) Xm of
                      Inl err \<Rightarrow> Err err
                    | Inr slope \<Rightarrow>
                        if length slope < length Xn
                        then Panic (IndexOutOfRange (length slope) (length slope))
                        else
                          let k3 = fill (length Xn) (\<lambda>i. h * slope ! i);
                              Xm = fill (length Xn) (\<lambda>i. Xn ! i + k3 ! i) in
                          (case f (tn + h) Xm of
                             Inl err \<Rightarrow> Err err
                           | Inr slope \<Rightarrow>
                               if length slope < length Xn
                               then Panic (IndexOutOfRange (length slope) (length slope))
                               else
                                 let k4 = fill (length Xn) (\<lambda>i. h * slope ! i) in
                                 Ok (fill (length Xn)
                                   (\<lambda>i. Xn ! i + (k1 ! i + 2 * k2 ! i + 2 * k3 ! i + k4 ! i) / 6))))))"

section \<open>The standard solver (solver.go)\<close>

text \<open>
  The struct \<^verbatim>\<open>StandardSolver\<close>; its fields \<^verbatim>\<open>t\<close>, \<^verbatim>\<open>X\<close> and \<^verbatim>\<open>iteration\<close> carry the
  prefix \<open>solver_\<close> here, so that \<open>t\<close> and \<open>X\<close> stay free for variables.
\<close>

record StandardSolver =
  solver_t :: real
  solver_X :: vec
  solver_iteration :: Iteration

definition NewEulerSolver :: StandardSolver where
  "NewEulerSolver = \<lparr>solver_t = 0, solver_X = [], solver_iteration = eulerIteration\<rparr>"

definition NewRK2Solver :: StandardSolver where
  "NewRK2Solver = \<lparr>solver_t = 0, solver_X = [], solver_iteration = rk2Iteration\<rparr>"


definition Result :: "StandardSolver \<Rightarrow> real \<times> vec" where
  "Result solver = (solver_t solver, solver_X solver)"

text \<open>
  How the \<^verbatim>\<open>for\<close> loop of \<^verbatim>\<open>Solve\<close> is left: by one of its two \<^verbatim>\<open>return nbIterations, err\<close>,
  by \<^verbatim>\<open>break\<close> (with the values of \<^verbatim>\<open>tm\<close>, \<^verbatim>\<open>Xm\<close> and \<^verbatim>\<open>nbIterations\<close> at that moment), or by
  a panic of the step algorithm. Each carries the recorder as it is then.
\<close>

datatype loop_exit =
    Return "64 word" error Recorder
  | Break real vec "64 word" Recorder
  | Abort panic Recorder

text \<open>
  The loop has no bound of its own: it runs until the step algorithm fails or the
  controller answers. A run that never leaves the loop is the value \<open>None\<close>.
\<close>

partial_function (option) Solve_loop ::
  "Iteration \<Rightarrow> Function \<Rightarrow> real \<Rightarrow> Controller \<Rightarrow> real \<Rightarrow> vec \<Rightarrow> 64 word \<Rightarrow> Recorder
     \<Rightarrow> loop_exit option" where
  "Solve_loop iteration f h c tm Xm nbIterations r =
     (case iteration f tm Xm h of
        Panic p \<Rightarrow> Some (Abort p r)
      | Err err \<Rightarrow> Some (Return nbIterations err r)
      | Ok Xn \<Rightarrow>
          let tn = tm + h;
              r' = Record r tn Xn in
          (case c tn Xn of
             (stop, Some err) \<Rightarrow> Some (Return nbIterations err r')
           | (stop, None) \<Rightarrow>
               if stop then Some (Break tm Xm nbIterations r')
               else Solve_loop iteration f h c tn Xn (nbIterations + 1) r'))"

text \<open>
  What a call of \<^verbatim>\<open>Solve\<close> leaves behind: the returned pair \<^verbatim>\<open>(uint64, error)\<close> together
  with the solver and the recorder after the call, or a panic with the recorder as far as
  it was written.
\<close>

datatype outcome =
    Returned "64 word" "error option" StandardSolver Recorder
  | Panicked panic Recorder

text \<open>
  \<^verbatim>\<open>Solve\<close> tests \<^verbatim>\<open>f\<close> and \<^verbatim>\<open>r\<close> against nil, so both are optional here; a nil recorder
  is replaced by \<^verbatim>\<open>RecorderNone\<close>. The controller and the solver's iteration are
  function values that the code calls without a test.
\<close>

definition Solve ::
  "StandardSolver \<Rightarrow> Function option \<Rightarrow> real \<Rightarrow> vec \<Rightarrow> real \<Rightarrow> Controller \<Rightarrow> Recorder option
     \<Rightarrow> outcome option" where
  "Solve solver f t0 X0 h c r =
     (case f of
        None \<Rightarrow>
          Some (Returned 0 (Some FunctionUndefined) solver
                  (case r of None \<Rightarrow> RecorderNone | Some r' \<Rightarrow> r'))
      | Some f' \<Rightarrow>
          let r1 = (case r of None \<Rightarrow> RecorderNone | Some r' \<Rightarrow> r');
              tm = t0;
              Xm = X0;
              r2 = Record r1 tm Xm in
          (case Solve_loop (solver_iteration solver) f' h c tm Xm 0 r2 of
             None \<Rightarrow> None
           | Some (Return nbIterations err r3) \<Rightarrow>
               Some (Returned nbIterations (Some err) solver r3)
           | Some (Abort p r3) \<Rightarrow> Some (Panicked p r3)
           | Some (Break tm' Xm' nbIterations r3) \<Rightarrow>
               Some (Returned nbIterations None
                       (solver\<lparr>solver_t := tm', solver_X := Xm'\<rparr>) r3)))"

section \<open>Time series export\<close>

text \<open>
  The export writes a file. The file system is a map from paths to contents. The calls
  into the Go standard library are parameters of the model: \<open>os_Create\<close> truncates or
  creates the file or fails, \<open>fmt_d\<close> is \<^verbatim>\<open>Sprintf("%d")\<close>, \<open>fmt_f p\<close> is \<^verbatim>\<open>Sprintf("%.pf")\<close>.
  The code ignores what \<^verbatim>\<open>WriteString\<close> returns, and the model appends each line; the
  log line is not modelled.
\<close>

type_synonym filesystem = "string \<rightharpoonup> string"

record stdlib =
  os_Create :: "filesystem \<Rightarrow> string \<Rightarrow> error + filesystem"
  fmt_d :: "nat \<Rightarrow> string"
  fmt_f :: "nat \<Rightarrow> real \<Rightarrow> string"

definition WriteString :: "filesystem \<Rightarrow> string \<Rightarrow> string \<Rightarrow> filesystem" where
  "WriteString fs filepath line =
     fs(filepath \<mapsto> (case fs filepath of None \<Rightarrow> line | Some content \<Rightarrow> content @ line))"

definition header_line :: "string list \<Rightarrow> string" where
  "header_line names = ''t'' @ concat (map (\<lambda>name. '';'' @ name) names) @ [CHR 0x0A]"

definition data_line :: "stdlib \<Rightarrow> TimeData \<Rightarrow> string" where
  "data_line lib data =
     fmt_f lib 4 (time data) @ concat (map (\<lambda>x. '';'' @ fmt_f lib 12 x) (state data))
       @ [CHR 0x0A]"

text \<open>\<open>Err\<close> leaves the file system as it was; \<open>Ok\<close> carries the file system with the file.\<close>

definition ToCSVwithNames ::
  "stdlib \<Rightarrow> TimeSeries \<Rightarrow> string \<Rightarrow> string list \<Rightarrow> filesystem \<Rightarrow> filesystem result" where
  "ToCSVwithNames lib series filepath names fs =
     (if length series = 0 then Err NoData
      else if length names \<noteq> length (state (series ! 0)) then Err (NamesMismatch names)
      else
        (case os_Create lib fs filepath of
           Inl err \<Rightarrow> Err err
         | Inr fs1 \<Rightarrow>
             Ok (foldl (\<lambda>fs' data. WriteString fs' filepath (data_line lib data))
                   (WriteString fs1 filepath (header_line names)) series)))"

text \<open>
  \<^verbatim>\<open>ToCSV\<close> reads \<^verbatim>\<open>series[0]\<close> before it calls \<^verbatim>\<open>ToCSVwithNames\<close>: on an empty series
  that index expression panics.
\<close>

definition ToCSV :: "stdlib \<Rightarrow> TimeSeries \<Rightarrow> string \<Rightarrow> filesystem \<Rightarrow> filesystem result" where
  "ToCSV lib series filepath fs =
     (if length series = 0 then Panic (IndexOutOfRange 0 0)
      else
        let names = map (\<lambda>j. ''x'' @ fmt_d lib j) [0..<length (state (series ! 0))]
        in ToCSVwithNames lib series filepath names fs)"

section \<open>Notions used to state the properties\<close>

text \<open>The recorder after it has received a list of samples, in order.\<close>

definition record_all :: "Recorder \<Rightarrow> (real \<times> vec) list \<Rightarrow> Recorder" where
  "record_all r samples = foldl (\<lambda>r' (t, X). Record r' t X) r samples"

text \<open>The recorder that \<^verbatim>\<open>Solve\<close> writes to: the one given, or \<^verbatim>\<open>RecorderNone\<close> for nil.\<close>

definition recorder_used :: "Recorder option \<Rightarrow> Recorder" where
  "recorder_used r = (case r of None \<Rightarrow> RecorderNone | Some r' \<Rightarrow> r')"



text \<open>
  \<open>committed iteration f h c tm Xm samples\<close>: starting the loop of \<^verbatim>\<open>Solve\<close> at
  \<open>(tm, Xm)\<close>, its first passes compute exactly \<open>samples\<close>, one per pass, and each pass
  reaches the end of the loop body (the step succeeds, the controller returns
  \<open>(false, nil)\<close>, the sample becomes the current state).
\<close>

fun committed ::
  "Iteration \<Rightarrow> Function \<Rightarrow> real \<Rightarrow> Controller \<Rightarrow> real \<Rightarrow> vec \<Rightarrow> (real \<times> vec) list \<Rightarrow> bool" where
  "committed iteration f h c tm Xm [] = True"
| "committed iteration f h c tm Xm ((tn, Xn) # samples) =
     (iteration f tm Xm h = Ok Xn \<and> tn = tm + h \<and> c tn Xn = (False, None)
      \<and> committed iteration f h c tn Xn samples)"

text \<open>
  One pass through the loop body that leaves the loop, if this pass does (\<open>None\<close> when
  the pass commits and the loop goes on).
\<close>

definition last_pass ::
  "Iteration \<Rightarrow> Function \<Rightarrow> real \<Rightarrow> Controller \<Rightarrow> real \<Rightarrow> vec \<Rightarrow> 64 word \<Rightarrow> Recorder
     \<Rightarrow> loop_exit option" where
  "last_pass iteration f h c tm Xm nb r =
     (case iteration f tm Xm h of
        Panic p \<Rightarrow> Some (Abort p r)
      | Err err \<Rightarrow> Some (Return nb err r)
      | Ok Xn \<Rightarrow>
          (case c (tm + h) Xn of
             (stop, Some err) \<Rightarrow> Some (Return nb err (Record r (tm + h) Xn))
           | (stop, None) \<Rightarrow>
               if stop then Some (Break tm Xm nb (Record r (tm + h) Xn)) else None))"

definition exits_after ::
  "Iteration \<Rightarrow> Function \<Rightarrow> real \<Rightarrow> Controller \<Rightarrow> real \<Rightarrow> vec \<Rightarrow> 64 word \<Rightarrow> Recorder
     \<Rightarrow> loop_exit \<Rightarrow> bool" where
  "exits_after iteration f h c tm Xm nb r ex \<longleftrightarrow>
     (\<exists>samples. committed iteration f h c tm Xm samples \<and>
       last_pass iteration f h c
         (fst (last ((tm, Xm) # samples))) (snd (last ((tm, Xm) # samples)))
         (nb + of_nat (length samples)) (record_all r samples) = Some ex)"

text \<open>
  The fourth-order Runge-Kutta step in the words of the specification, on vectors:
  \<open>k1 = h f(t, X)\<close>, \<open>k2 = h f(t + h/2, X + k1/2)\<close>, \<open>k3 = h f(t + h/2, X + k2/2)\<close>,
  \<open>k4 = h f(t + h, X + k3)\<close>, and the result \<open>X + (k1 + 2 k2 + 2 k3 + k4) / 6\<close>; a
  failure of \<open>f\<close> at any stage is the result.
\<close>

definition vadd :: "vec \<Rightarrow> vec \<Rightarrow> vec" where
  "vadd xs ys = map2 (+) xs ys"

definition vscale :: "real \<Rightarrow> vec \<Rightarrow> vec" where
  "vscale a xs = map ((*) a) xs"

definition rk4_formula :: "Function \<Rightarrow> real \<Rightarrow> vec \<Rightarrow> real \<Rightarrow> error + vec" where
  "rk4_formula f tn Xn h =
     (case f tn Xn of
        Inl err \<Rightarrow> Inl err
      | Inr s1 \<Rightarrow>
          let k1 = vscale h s1 in
          (case f (tn + h / 2) (vadd Xn (vscale (1 / 2) k1)) of
             Inl err \<Rightarrow> Inl err
           | Inr s2 \<Rightarrow>
               let k2 = vscale h s2 in
               (case f (tn + h / 2) (vadd Xn (vscale (1 / 2) k2)) of
                  Inl err \<Rightarrow> Inl err
                | Inr s3 \<Rightarrow>
                    let k3 = vscale h s3 in
                    (case f (tn + h) (vadd Xn k3) of
                       Inl err \<Rightarrow> Inl err
                     | Inr s4 \<Rightarrow>
                         let k4 = vscale h s4 in
                         Inr (vadd Xn (vscale (1 / 6)
                                (vadd (vadd (vadd k1 (vscale 2 k2)) (vscale 2 k3)) k4)))))))"

text \<open>
  The contract of a derivative function (a state vector of length n gives a derivative
  of length n, or an error).
\<close>

definition keeps_dimension :: "Function \<Rightarrow> bool" where
  "keeps_dimension f \<longleftrightarrow>
     (\<forall>t X. case f t X of Inl err \<Rightarrow> True | Inr s \<Rightarrow> length s = length X)"

section \<open>Inputs of the examples\<close>

text \<open>A derivative that is 1 in every component, and the decay \<open>dX/dt = -X\<close>.\<close>

definition unit_slope :: Function where
  "unit_slope t X = Inr (map (\<lambda>x. 1) X)"



text \<open>A derivative that fails from time 2 on.\<close>

definition fails_from_2 :: Function where
  "fails_from_2 t X = (if t < 2 then Inr (map (\<lambda>x. 1) X) else Inl (Failure ''domain''))"

definition NeverStop :: Controller where
  "NeverStop t X = (False, None)"

definition AlwaysStop :: Controller where
  "AlwaysStop t X = (True, None)"

definition ErrorController :: Controller where
  "ErrorController t X = (False, Some (Failure ''diverged''))"


section \<open>The stop controllers\<close>

lemma StopAtTime_no_error: "snd (StopAtTime tmax t X) = None"
  by (simp add: StopAtTime_def Let_def)




lemma MultiController_range_append:
  "\<forall>c \<in> set cs1. c t X = (False, None) \<Longrightarrow>
   MultiController_range (cs1 @ cs2) t X = MultiController_range cs2 t X"
  by (induction cs1) auto

text \<open>
  Claim C6. The aggregate controller evaluates its sub-controllers in the given order.
  Let \<open>c\<close> be the first one that does not answer \<open>(false, nil)\<close>, after the controllers
  \<open>before\<close> and ahead of the controllers \<open>rest\<close>. If \<open>c\<close> returns an error, the aggregate
  returns \<open>(true, that error)\<close>; if \<open>c\<close> returns \<open>(true, nil)\<close>, the aggregate returns
  \<open>(true, nil)\<close>; in both cases whatever the controllers in \<open>rest\<close> would do, since they
  are not evaluated. If all sub-controllers answer \<open>(false, nil)\<close>, so does the aggregate.
\<close>

theorem MultiController_in_order:
  assumes "\<forall>c' \<in> set before. c' t X = (False, None)"
  shows "(c t X = (ok, Some err) \<longrightarrow>
            MultiController (before @ c # rest) t X = (True, Some err)) \<and>
         (c t X = (True, None) \<longrightarrow> MultiController (before @ c # rest) t X = (True, None)) \<and>
         MultiController before t X = (False, None)"
proof -
  have "MultiController_range (before @ c # rest) t X = MultiController_range (c # rest) t X"
    using assms by (rule MultiController_range_append)
  moreover have "MultiController_range (before @ []) t X = MultiController_range [] t X"
    using assms by (rule MultiController_range_append)
  ultimately show ?thesis by (simp add: MultiController_def)
qed

theorem MultiController_in_order_witness:
  "NeverStop 0 [] = (False, None) \<and>
   ErrorController 0 [] = (False, Some (Failure ''diverged'')) \<and>
   MultiController ([NeverStop] @ ErrorController # [AlwaysStop]) 0 []
     = (True, Some (Failure ''diverged'')) \<and>
   AlwaysStop 0 [] = (True, None) \<and>
   MultiController ([NeverStop] @ AlwaysStop # [ErrorController]) 0 [] = (True, None) \<and>
   MultiController [NeverStop] 0 [] = (False, None)"
proof -
  have h: "\<forall>c' \<in> set [NeverStop]. c' 0 [] = (False, None)"
    by (simp add: NeverStop_def)
  show ?thesis
    using h
      MultiController_in_order [OF h, of ErrorController False "Failure ''diverged''" "[AlwaysStop]"]
      MultiController_in_order [OF h, of AlwaysStop False "Failure ''diverged''" "[ErrorController]"]
    by (simp add: ErrorController_def AlwaysStop_def NeverStop_def)
qed

section \<open>Export of an empty series\<close>

text \<open>
  Claim C10. Exporting an empty time series should fail with a non-nil error for both
  exports. \<^verbatim>\<open>ToCSVwithNames\<close> does return the error "the timeseries has no data" and
  leaves the file system alone, but \<^verbatim>\<open>ToCSV\<close> panics on \<^verbatim>\<open>series[0]\<close> before it reaches
  that test: it returns no error value at all.
\<close>

theorem ToCSV_empty_panics:
  "ToCSV lib [] filepath fs = Panic (IndexOutOfRange 0 0) \<and>
   ToCSVwithNames lib [] filepath names fs = Err NoData"
  by (simp add: ToCSV_def ToCSVwithNames_def)

section \<open>The solve loop\<close>

text \<open>
  Claim C9. When \<^verbatim>\<open>Solve\<close> returns a non-nil error (the function is nil, a step fails,
  or the controller reports an error), the solver is as it was before the call, so
  \<^verbatim>\<open>Result()\<close> gives what it gave before and nothing of the failed run.
\<close>

theorem Solve_error_keeps_result:
  assumes "Solve solver f t0 X0 h c r = Some (Returned n (Some err) solver' r')"
  shows "solver' = solver \<and> Result solver' = Result solver"
proof (cases f)
  case None
  with assms show ?thesis by (simp add: Solve_def)
next
  case (Some f')
  show ?thesis
  proof (cases "Solve_loop (solver_iteration solver) f' h c t0 X0 0
                  (Record (recorder_used r) t0 X0)")
    case None
    with assms Some show ?thesis by (simp add: Solve_def Let_def recorder_used_def)
  next
    case (Some ex)
    with assms \<open>f = Some f'\<close> show ?thesis
      by (cases ex) (simp_all add: Solve_def Let_def recorder_used_def)
  qed
qed

theorem Solve_error_keeps_result_witness:
  "Solve NewRK2Solver (Some fails_from_2) 0 [0] 1 (StopAtTime 5) (Some (RecorderTimeSeries []))
     = Some (Returned 2 (Some (Failure ''domain'')) NewRK2Solver
         (RecorderTimeSeries [\<lparr>time = 0, state = [0]\<rparr>, \<lparr>time = 1, state = [1]\<rparr>,
            \<lparr>time = 2, state = [2]\<rparr>])) \<and>
   Result NewRK2Solver = (0, [])"
proof -
  have run: "Solve NewRK2Solver (Some fails_from_2) 0 [0] 1 (StopAtTime 5)
      (Some (RecorderTimeSeries []))
     = Some (Returned 2 (Some (Failure ''domain'')) NewRK2Solver
         (RecorderTimeSeries [\<lparr>time = 0, state = [0]\<rparr>, \<lparr>time = 1, state = [1]\<rparr>,
            \<lparr>time = 2, state = [2]\<rparr>]))"
    by (simp add: Solve_def Solve_loop.simps NewRK2Solver_def rk2Iteration_def fails_from_2_def
        StopAtTime_def fill_def Let_def)
  show ?thesis
    using run Solve_error_keeps_result [OF run] by (simp add: Result_def NewRK2Solver_def)
qed

subsection \<open>The loop, pass by pass\<close>

lemma record_all_Nil: "record_all r [] = r"
  by (simp add: record_all_def)

lemma record_all_Cons: "record_all r ((t, X) # samples) = record_all (Record r t X) samples"
  by (simp add: record_all_def)

lemma record_all_snoc: "record_all r (samples @ [(t, X)]) = Record (record_all r samples) t X"
  by (simp add: record_all_def)





lemma last_pass_cases:
  obtains (exit) ex where "last_pass iteration f h c tm Xm nb r = Some ex"
  | (commit) Xn where "iteration f tm Xm h = Ok Xn" "c (tm + h) Xn = (False, None)"
      "last_pass iteration f h c tm Xm nb r = None"
proof (cases "iteration f tm Xm h")
  case (Panic p)
  then have "last_pass iteration f h c tm Xm nb r = Some (Abort p r)"
    by (simp add: last_pass_def)
  then show ?thesis by (rule exit)
next
  case (Err err)
  then have "last_pass iteration f h c tm Xm nb r = Some (Return nb err r)"
    by (simp add: last_pass_def)
  then show ?thesis by (rule exit)
next
  case (Ok Xn)
  obtain stop eo where c: "c (tm + h) Xn = (stop, eo)" by (cases "c (tm + h) Xn")
  show ?thesis
  proof (cases eo)
    case (Some err)
    with Ok c have "last_pass iteration f h c tm Xm nb r
        = Some (Return nb err (Record r (tm + h) Xn))"
      by (simp add: last_pass_def)
    then show ?thesis by (rule exit)
  next
    case None
    show ?thesis
    proof (cases stop)
      case True
      with Ok c None have "last_pass iteration f h c tm Xm nb r
          = Some (Break tm Xm nb (Record r (tm + h) Xn))"
        by (simp add: last_pass_def)
      then show ?thesis by (rule exit)
    next
      case False
      with Ok c None have "last_pass iteration f h c tm Xm nb r = None"
        by (simp add: last_pass_def)
      with Ok c None False show ?thesis by (intro commit [of Xn]) simp_all
    qed
  qed
qed

lemma exits_after_now:
  "last_pass iteration f h c tm Xm nb r = Some ex \<Longrightarrow> exits_after iteration f h c tm Xm nb r ex"
  unfolding exits_after_def by (intro exI [of _ "[]"]) (simp add: record_all_Nil)

lemma exits_after_commit:
  assumes "iteration f tm Xm h = Ok Xn" "c (tm + h) Xn = (False, None)"
    and "exits_after iteration f h c (tm + h) Xn (nb + 1) (Record r (tm + h) Xn) ex"
  shows "exits_after iteration f h c tm Xm nb r ex"
proof -
  from assms(3) obtain samples where ss: "committed iteration f h c (tm + h) Xn samples"
      "last_pass iteration f h c
         (fst (last ((tm + h, Xn) # samples))) (snd (last ((tm + h, Xn) # samples)))
         (nb + 1 + of_nat (length samples)) (record_all (Record r (tm + h) Xn) samples) = Some ex"
    unfolding exits_after_def by blast
  have "committed iteration f h c tm Xm ((tm + h, Xn) # samples)"
    using assms(1,2) ss(1) by simp
  moreover have "last_pass iteration f h c
       (fst (last ((tm, Xm) # (tm + h, Xn) # samples)))
       (snd (last ((tm, Xm) # (tm + h, Xn) # samples)))
       (nb + of_nat (length ((tm + h, Xn) # samples)))
       (record_all r ((tm + h, Xn) # samples)) = Some ex"
    using ss(2) by (simp add: record_all_Cons ac_simps)
  ultimately show ?thesis unfolding exits_after_def by blast
qed

lemma Solve_loop_exit:
  assumes "Solve_loop iteration f h c tm Xm nb r = Some ex"
  shows "exits_after iteration f h c tm Xm nb r ex"
proof (rule Solve_loop.raw_induct [where P = exits_after, OF _ assms])
  fix S :: "Iteration \<Rightarrow> Function \<Rightarrow> real \<Rightarrow> Controller \<Rightarrow> real \<Rightarrow> vec \<Rightarrow> 64 word \<Rightarrow> Recorder
    \<Rightarrow> loop_exit option"
  fix iteration f h c tm Xm nb r ex
  assume IH: "\<And>iteration f h c tm Xm nb r ex.
    S iteration f h c tm Xm nb r = Some ex \<Longrightarrow> exits_after iteration f h c tm Xm nb r ex"
  assume body: "(case iteration f tm Xm h of
        Panic p \<Rightarrow> Some (Abort p r)
      | Err err \<Rightarrow> Some (Return nb err r)
      | Ok Xn \<Rightarrow>
          let tn = tm + h;
              r' = Record r tn Xn in
          (case c tn Xn of
             (stop, Some err) \<Rightarrow> Some (Return nb err r')
           | (stop, None) \<Rightarrow>
               if stop then Some (Break tm Xm nb r')
               else S iteration f h c tn Xn (nb + 1) r')) = Some ex"
  show "exits_after iteration f h c tm Xm nb r ex"
  proof (cases rule: last_pass_cases [of iteration f h c tm Xm nb r])
    case (exit ex')
    have "ex' = ex"
    proof (cases "iteration f tm Xm h")
      case (Panic p)
      with exit body show ?thesis by (simp add: last_pass_def)
    next
      case (Err err)
      with exit body show ?thesis by (simp add: last_pass_def)
    next
      case (Ok Xn)
      obtain stop eo where c: "c (tm + h) Xn = (stop, eo)" by (cases "c (tm + h) Xn")
      show ?thesis
      proof (cases eo)
        case None
        with Ok c exit have "stop" by (simp add: last_pass_def split: if_splits)
        with Ok c exit body None show ?thesis by (simp add: last_pass_def)
      next
        case (Some err)
        with Ok c exit body show ?thesis by (simp add: last_pass_def)
      qed
    qed
    with exit show ?thesis by (simp add: exits_after_now)
  next
    case (commit Xn)
    with body have "S iteration f h c (tm + h) Xn (nb + 1) (Record r (tm + h) Xn) = Some ex"
      by (simp add: Let_def)
    from IH [OF this] show ?thesis
      using exits_after_commit [of iteration f tm Xm h Xn c nb r ex] commit(1,2) by simp
  qed
qed


lemma last_pass_Break:
  assumes "last_pass iteration f h c tm Xm nb r = Some (Break tm' Xm' n r')"
  shows "tm' = tm \<and> Xm' = Xm \<and> n = nb \<and>
    (\<exists>Xn. iteration f tm Xm h = Ok Xn \<and> c (tm + h) Xn = (True, None) \<and> r' = Record r (tm + h) Xn)"
proof (cases "iteration f tm Xm h")
  case (Panic p)
  with assms show ?thesis by (simp add: last_pass_def)
next
  case (Err err)
  with assms show ?thesis by (simp add: last_pass_def)
next
  case (Ok Xn)
  obtain stop eo where c: "c (tm + h) Xn = (stop, eo)" by (cases "c (tm + h) Xn")
  with Ok assms show ?thesis
    by (cases eo; cases stop) (simp_all add: last_pass_def)
qed

lemma last_pass_Return:
  assumes "last_pass iteration f h c tm Xm nb r = Some (Return n err r')"
  shows "n = nb \<and>
    (iteration f tm Xm h = Err err \<and> r' = r \<or>
     (\<exists>Xn stop. iteration f tm Xm h = Ok Xn \<and> c (tm + h) Xn = (stop, Some err)
        \<and> r' = Record r (tm + h) Xn))"
proof (cases "iteration f tm Xm h")
  case (Panic p)
  with assms show ?thesis by (simp add: last_pass_def)
next
  case (Err e)
  with assms show ?thesis by (simp add: last_pass_def)
next
  case (Ok Xn)
  obtain stop eo where c: "c (tm + h) Xn = (stop, eo)" by (cases "c (tm + h) Xn")
  with Ok assms show ?thesis
    by (cases eo; cases stop) (auto simp: last_pass_def)
qed

lemma last_pass_Abort:
  assumes "last_pass iteration f h c tm Xm nb r = Some (Abort p r')"
  shows "iteration f tm Xm h = Panic p \<and> r' = r"
proof (cases "iteration f tm Xm h")
  case (Panic p)
  with assms show ?thesis by (simp add: last_pass_def)
next
  case (Err err)
  with assms show ?thesis by (simp add: last_pass_def)
next
  case (Ok Xn)
  obtain stop eo where c: "c (tm + h) Xn = (stop, eo)" by (cases "c (tm + h) Xn")
  with Ok assms show ?thesis
    by (cases eo; cases stop) (simp_all add: last_pass_def)
qed

lemma Solve_Some:
  "Solve solver (Some f) t0 X0 h c r =
     (case Solve_loop (solver_iteration solver) f h c t0 X0 0 (Record (recorder_used r) t0 X0) of
        None \<Rightarrow> None
      | Some (Return n err r') \<Rightarrow> Some (Returned n (Some err) solver r')
      | Some (Abort p r') \<Rightarrow> Some (Panicked p r')
      | Some (Break tm Xm n r') \<Rightarrow>
          Some (Returned n None (solver\<lparr>solver_t := tm, solver_X := Xm\<rparr>) r'))"
  by (simp add: Solve_def Let_def recorder_used_def)












subsection \<open>Successful runs\<close>

lemma unat_count: "k < 2 ^ 64 \<Longrightarrow> unat (of_nat k :: 64 word) = k"
  by (simp add: unat_of_nat)

text \<open>
  Claim C1. When \<^verbatim>\<open>Solve\<close> returns a nil error, the loop has committed some samples
  (each one computed by a step and accepted by the controller) and then computed one more
  sample \<open>Xn\<close> on which the controller answered \<open>(true, nil)\<close>. \<^verbatim>\<open>Result()\<close> is the last
  committed pair (the initial pair when nothing was committed) and not the sample that
  triggered the stop, and the returned count is the number of committed samples, as a
  \<^verbatim>\<open>uint64\<close>. The recorder has received the initial sample, the committed samples and the
  stop-triggering sample, in this order.
\<close>

theorem Solve_success:
  assumes "Solve solver (Some f) t0 X0 h c r = Some (Returned n None solver' r')"
  shows "\<exists>samples Xn.
     committed (solver_iteration solver) f h c t0 X0 samples \<and>
     n = of_nat (length samples) \<and>
     (length samples < 2 ^ 64 \<longrightarrow> unat n = length samples) \<and>
     Result solver' = last ((t0, X0) # samples) \<and>
     solver_iteration solver f (fst (Result solver')) (snd (Result solver')) h = Ok Xn \<and>
     c (fst (Result solver') + h) Xn = (True, None) \<and>
     r' = record_all (recorder_used r) ((t0, X0) # samples @ [(fst (Result solver') + h, Xn)])"
proof -
  let ?it = "solver_iteration solver"
  let ?r2 = "Record (recorder_used r) t0 X0"
  from assms obtain tm Xm where loop: "Solve_loop ?it f h c t0 X0 0 ?r2 = Some (Break tm Xm n r')"
    and solver': "solver' = solver\<lparr>solver_t := tm, solver_X := Xm\<rparr>"
    by (auto simp: Solve_Some split: option.splits loop_exit.splits)
  from Solve_loop_exit [OF loop] obtain samples where ss: "committed ?it f h c t0 X0 samples"
    "last_pass ?it f h c (fst (last ((t0, X0) # samples))) (snd (last ((t0, X0) # samples)))
       (0 + of_nat (length samples)) (record_all ?r2 samples) = Some (Break tm Xm n r')"
    unfolding exits_after_def by blast
  from last_pass_Break [OF ss(2)] obtain Xn where fin:
    "tm = fst (last ((t0, X0) # samples))" "Xm = snd (last ((t0, X0) # samples))"
    "n = of_nat (length samples)" "?it f tm Xm h = Ok Xn" "c (tm + h) Xn = (True, None)"
    "r' = Record (record_all ?r2 samples) (tm + h) Xn"
    by auto
  have res: "Result solver' = (tm, Xm)" by (simp add: solver' Result_def)
  have "r' = record_all (recorder_used r) ((t0, X0) # samples @ [(tm + h, Xn)])"
    using fin(6) record_all_snoc [of "recorder_used r" "(t0, X0) # samples" "tm + h" Xn]
    by (simp add: record_all_Cons)
  moreover have "length samples < 2 ^ 64 \<longrightarrow> unat n = length samples"
    using fin(3) unat_count [of "length samples"] by simp
  ultimately show ?thesis
    using ss(1) fin res by (intro exI [of _ samples] exI [of _ Xn]) simp
qed

lemma unit_slope_run:
  "Solve NewEulerSolver (Some unit_slope) 0 [0] 1 (StopAtTime (5 / 2))
      (Some (RecorderTimeSeries []))
     = Some (Returned 2 None (NewEulerSolver\<lparr>solver_t := 2, solver_X := [2]\<rparr>)
         (RecorderTimeSeries [\<lparr>time = 0, state = [0]\<rparr>, \<lparr>time = 1, state = [1]\<rparr>,
            \<lparr>time = 2, state = [2]\<rparr>, \<lparr>time = 3, state = [3]\<rparr>]))"
  by (simp add: Solve_def Solve_loop.simps NewEulerSolver_def eulerIteration_def unit_slope_def
      StopAtTime_def fill_def Let_def)

theorem Solve_success_witness:
  "Solve NewEulerSolver (Some unit_slope) 0 [0] 1 (StopAtTime (5 / 2))
      (Some (RecorderTimeSeries []))
     = Some (Returned 2 None (NewEulerSolver\<lparr>solver_t := 2, solver_X := [2]\<rparr>)
         (RecorderTimeSeries [\<lparr>time = 0, state = [0]\<rparr>, \<lparr>time = 1, state = [1]\<rparr>,
            \<lparr>time = 2, state = [2]\<rparr>, \<lparr>time = 3, state = [3]\<rparr>])) \<and>
   (\<exists>samples. committed eulerIteration unit_slope 1 (StopAtTime (5 / 2)) 0 [0] samples \<and>
      (2 :: 64 word) = of_nat (length samples) \<and>
      (2, [2]) = last ((0, [0]) # samples))"
proof -
  from Solve_success [OF unit_slope_run] obtain samples Xn where
    "committed (solver_iteration NewEulerSolver) unit_slope 1 (StopAtTime (5 / 2)) 0 [0] samples"
    "(2 :: 64 word) = of_nat (length samples)"
    "Result (NewEulerSolver\<lparr>solver_t := 2, solver_X := [2]\<rparr>) = last ((0, [0]) # samples)"
    by blast
  then have "\<exists>samples. committed eulerIteration unit_slope 1 (StopAtTime (5 / 2)) 0 [0] samples \<and>
      (2 :: 64 word) = of_nat (length samples) \<and>
      (2, [2]) = last ((0, [0]) # samples)"
    by (intro exI [of _ samples]) (simp add: NewEulerSolver_def Result_def)
  with unit_slope_run show ?thesis by blast
qed



subsection \<open>Failing derivative\<close>

lemma eulerIteration_Err:
  "eulerIteration f tn Xn h = Err err \<Longrightarrow> \<exists>t X. f t X = Inl err"
  by (auto simp: eulerIteration_def split: sum.splits if_splits)

lemma rk2Iteration_Err:
  "rk2Iteration f tn Xn h = Err err \<Longrightarrow> \<exists>t X. f t X = Inl err"
  by (auto simp: rk2Iteration_def Let_def split: sum.splits if_splits)

lemma rk4Iteration_Err:
  "rk4Iteration f tn Xn h = Err err \<Longrightarrow> \<exists>t X. f t X = Inl err"
  unfolding rk4Iteration_def Let_def
  by (simp split: sum.splits if_splits) blast+



subsection \<open>The first samples\<close>





section \<open>The fourth-order Runge-Kutta step\<close>

lemma length_fill: "length (fill n g) = n"
  by (simp add: fill_def)

lemma nth_fill: "i < n \<Longrightarrow> fill n g ! i = g i"
  by (simp add: fill_def)

lemma length_vscale: "length (vscale a xs) = length xs"
  by (simp add: vscale_def)

lemma length_vadd: "length (vadd xs ys) = min (length xs) (length ys)"
  by (simp add: vadd_def)

lemma fill_vscale:
  assumes "length s = n"
  shows "fill n (\<lambda>i. h * s ! i) = vscale h s"
  by (rule nth_equalityI) (simp_all add: assms length_fill nth_fill vscale_def)

lemma fill_vadd_half:
  assumes "length k = length Xn"
  shows "fill (length Xn) (\<lambda>i. Xn ! i + k ! i / 2) = vadd Xn (vscale (1 / 2) k)"
  by (rule nth_equalityI) (simp_all add: assms length_fill nth_fill vscale_def vadd_def)

lemma fill_vadd:
  assumes "length k = length Xn"
  shows "fill (length Xn) (\<lambda>i. Xn ! i + k ! i) = vadd Xn k"
  by (rule nth_equalityI) (simp_all add: assms length_fill nth_fill vadd_def)

lemma fill_weighted:
  assumes "length k1 = length Xn" "length k2 = length Xn" "length k3 = length Xn"
    "length k4 = length Xn"
  shows "fill (length Xn) (\<lambda>i. Xn ! i + (k1 ! i + 2 * k2 ! i + 2 * k3 ! i + k4 ! i) / 6)
    = vadd Xn (vscale (1 / 6) (vadd (vadd (vadd k1 (vscale 2 k2)) (vscale 2 k3)) k4))"
  by (rule nth_equalityI) (simp_all add: assms length_fill nth_fill vscale_def vadd_def)

lemma keeps_dimensionD:
  assumes "keeps_dimension f" "f t X = Inr s"
  shows "length s = length X"
proof -
  from assms(1) have "case f t X of Inl err \<Rightarrow> True | Inr s' \<Rightarrow> length s' = length X"
    unfolding keeps_dimension_def by blast
  with assms(2) show ?thesis by simp
qed

lemma rk4Iteration_refines:
  assumes "keeps_dimension f"
  shows "rk4Iteration f tn Xn h
    = (case rk4_formula f tn Xn h of Inl err \<Rightarrow> Err err | Inr Xs \<Rightarrow> Ok Xs)"
proof (cases "f tn Xn")
  case (Inl err)
  then show ?thesis by (simp add: rk4Iteration_def rk4_formula_def)
next
  case s1: (Inr s1)
  have l1: "length s1 = length Xn" using assms s1 by (rule keeps_dimensionD)
  have k1: "fill (length Xn) (\<lambda>i. h * s1 ! i) = vscale h s1"
    using l1 by (rule fill_vscale)
  have x1: "fill (length Xn) (\<lambda>i. Xn ! i + vscale h s1 ! i / 2) = vadd Xn (vscale (1 / 2) (vscale h s1))"
    by (rule fill_vadd_half) (simp add: length_vscale l1)
  let ?X1 = "vadd Xn (vscale (1 / 2) (vscale h s1))"
  have lX1: "length ?X1 = length Xn" by (simp add: length_vadd length_vscale l1)
  show ?thesis
  proof (cases "f (tn + h / 2) ?X1")
    case (Inl err)
    with s1 l1 show ?thesis by (simp add: rk4Iteration_def rk4_formula_def Let_def k1 x1)
  next
    case s2: (Inr s2)
    have l2: "length s2 = length Xn" using keeps_dimensionD [OF assms s2] lX1 by simp
    have k2: "fill (length Xn) (\<lambda>i. h * s2 ! i) = vscale h s2"
      using l2 by (rule fill_vscale)
    have x2: "fill (length Xn) (\<lambda>i. Xn ! i + vscale h s2 ! i / 2) = vadd Xn (vscale (1 / 2) (vscale h s2))"
      by (rule fill_vadd_half) (simp add: length_vscale l2)
    let ?X2 = "vadd Xn (vscale (1 / 2) (vscale h s2))"
    have lX2: "length ?X2 = length Xn" by (simp add: length_vadd length_vscale l2)
    show ?thesis
    proof (cases "f (tn + h / 2) ?X2")
      case (Inl err)
      with s1 l1 s2 l2 show ?thesis
        by (simp add: rk4Iteration_def rk4_formula_def Let_def k1 x1 k2 x2)
    next
      case s3: (Inr s3)
      have l3: "length s3 = length Xn" using keeps_dimensionD [OF assms s3] lX2 by simp
      have k3: "fill (length Xn) (\<lambda>i. h * s3 ! i) = vscale h s3"
        using l3 by (rule fill_vscale)
      have x3: "fill (length Xn) (\<lambda>i. Xn ! i + vscale h s3 ! i) = vadd Xn (vscale h s3)"
        by (rule fill_vadd) (simp add: length_vscale l3)
      let ?X3 = "vadd Xn (vscale h s3)"
      have lX3: "length ?X3 = length Xn" by (simp add: length_vadd length_vscale l3)
      show ?thesis
      proof (cases "f (tn + h) ?X3")
        case (Inl err)
        with s1 l1 s2 l2 s3 l3 show ?thesis
          by (simp add: rk4Iteration_def rk4_formula_def Let_def k1 x1 k2 x2 k3 x3)
      next
        case s4: (Inr s4)
        have l4: "length s4 = length Xn" using keeps_dimensionD [OF assms s4] lX3 by simp
        have k4: "fill (length Xn) (\<lambda>i. h * s4 ! i) = vscale h s4"
          using l4 by (rule fill_vscale)
        have fin: "fill (length Xn)
            (\<lambda>i. Xn ! i + (vscale h s1 ! i + 2 * vscale h s2 ! i + 2 * vscale h s3 ! i
                    + vscale h s4 ! i) / 6)
          = vadd Xn (vscale (1 / 6)
              (vadd (vadd (vadd (vscale h s1) (vscale 2 (vscale h s2))) (vscale 2 (vscale h s3)))
                 (vscale h s4)))"
          by (rule fill_weighted) (simp_all add: length_vscale l1 l2 l3 l4)
        from s1 l1 s2 l2 s3 l3 s4 l4 show ?thesis
          by (simp add: rk4Iteration_def rk4_formula_def Let_def k1 x1 k2 x2 k3 x3 k4 fin)
      qed
    qed
  qed
qed



section \<open>Runs under \<open>StopAtTime\<close>\<close>





text \<open>
  A derivative function that never fails and keeps the dimension makes every step of the
  three step algorithms succeed.
\<close>

lemma eulerIteration_total:
  assumes "\<forall>t X. \<exists>s. f t X = Inr s \<and> length s = length X"
  shows "\<exists>Xn. eulerIteration f t X h = Ok Xn"
proof -
  from assms obtain s where "f t X = Inr s" "length s = length X" by blast
  then show ?thesis by (simp add: eulerIteration_def)
qed

lemma rk2Iteration_total:
  assumes "\<forall>t X. \<exists>s. f t X = Inr s \<and> length s = length X"
  shows "\<exists>Xn. rk2Iteration f t X h = Ok Xn"
proof -
  from assms obtain s1 where s1: "f t X = Inr s1" "length s1 = length X" by blast
  let ?Xm = "fill (length X) (\<lambda>i. X ! i + h * s1 ! i / 2)"
  from assms obtain s2 where s2: "f (t + h / 2) ?Xm = Inr s2" "length s2 = length ?Xm" by blast
  from s1 s2 show ?thesis by (simp add: rk2Iteration_def Let_def length_fill)
qed

lemma rk4Iteration_total:
  assumes "\<forall>t X. \<exists>s. f t X = Inr s \<and> length s = length X"
  shows "\<exists>Xn. rk4Iteration f t X h = Ok Xn"
proof -
  have dim: "keeps_dimension f"
    unfolding keeps_dimension_def
  proof (intro allI)
    fix t X
    from assms obtain s where "f t X = Inr s" "length s = length X" by blast
    then show "case f t X of Inl err \<Rightarrow> True | Inr s \<Rightarrow> length s = length X" by simp
  qed
  have ok: "\<exists>s. f t X = Inr s" for t X using assms by blast
  obtain s1 where s1: "f t X = Inr s1" using ok by blast
  obtain s2 where s2: "f (t + h / 2) (vadd X (vscale (1 / 2) (vscale h s1))) = Inr s2"
    using ok by blast
  obtain s3 where s3: "f (t + h / 2) (vadd X (vscale (1 / 2) (vscale h s2))) = Inr s3"
    using ok by blast
  obtain s4 where s4: "f (t + h) (vadd X (vscale h s3)) = Inr s4"
    using ok by blast
  from s1 s2 s3 s4 have "\<exists>Xs. rk4_formula f t X h = Inr Xs"
    by (simp add: rk4_formula_def Let_def)
  then show ?thesis by (auto simp: rk4Iteration_refines [OF dim])
qed





end
